theory Spec2Isabelle
  imports Complex_Main "HOL-Library.AList"
begin

section \<open>The training script \<^verbatim>\<open>yolov3_train.py\<close>\<close>

text \<open>
  The script has one function, \<^verbatim>\<open>main\<close>: it declares a command line, reads it, and from
  the values read assembles the objects of a training run (model, optimizer, iterator,
  updater, trainer and the trainer's extensions), then starts the trainer. The embedding
  follows that order. Python's unbounded integers are \<^typ>\<open>int\<close>; the float literals of
  the script and the float values of the command line are the rationals their decimal
  spelling denotes (the script never computes with them, it passes them on).
\<close>

subsection \<open>The namespace \<^verbatim>\<open>args\<close>\<close>

text \<open>
  One field per \<^verbatim>\<open>add_argument\<close> call, lines 26 to 43. An option declared without
  \<^verbatim>\<open>default\<close> has Python's \<^verbatim>\<open>None\<close> when it is not given: \<^verbatim>\<open>--names\<close> and
  \<^verbatim>\<open>--train\<close>.
\<close>

record args =
  names :: "string option"
  train :: "string option"
  valid :: string
  detection :: string
  batchsize :: int
  iteration :: int
  gpus :: "int list"
  out :: string
  seed :: int
  display_interval :: int
  snapshot_interval :: int
  ignore_thresh :: rat
  thresh :: rat
  darknet :: string
  darknet_class :: int
  steps :: "int list"
  scales :: "rat list"

definition defaults :: args where
  "defaults =
     \<lparr>names = None, train = None, valid = '''', detection = '''',
      batchsize = 8, iteration = 50200, gpus = [], out = ''yolov3-result'', seed = 0,
      display_interval = 100, snapshot_interval = 100,
      ignore_thresh = 1 / 2, thresh = 1 / 2,
      darknet = '''', darknet_class = - 1,
      steps = [- 10200, - 5200], scales = [1 / 10, 1 / 10]\<rparr>"

subsection \<open>The parser, lines 25 to 44\<close>

text \<open>
  \<^verbatim>\<open>int(s)\<close> and \<^verbatim>\<open>float(s)\<close> on the decimal spellings: an optional sign, digits,
  and for a float an optional point. A string that is not of this form has no value here.
\<close>

definition digit_of :: "char \<Rightarrow> nat option" where
  "digit_of c =
     (let k = (of_char c :: nat) in if 48 \<le> k \<and> k \<le> 57 then Some (k - 48) else None)"

fun nat_of_digits :: "nat \<Rightarrow> string \<Rightarrow> nat option" where
  "nat_of_digits acc [] = Some acc"
| "nat_of_digits acc (c # cs) =
     (case digit_of c of None \<Rightarrow> None | Some d \<Rightarrow> nat_of_digits (10 * acc + d) cs)"

definition unsigned :: "string \<Rightarrow> bool \<times> string" where
  "unsigned s =
     (if s \<noteq> [] \<and> hd s = CHR ''-'' then (True, tl s)
      else if s \<noteq> [] \<and> hd s = CHR ''+'' then (False, tl s)
      else (False, s))"

definition py_int :: "string \<Rightarrow> int option" where
  "py_int s =
     (let (neg, ds) = unsigned s in
      if ds = [] then None
      else map_option (\<lambda>n. if neg then - int n else int n) (nat_of_digits 0 ds))"

definition py_float :: "string \<Rightarrow> rat option" where
  "py_float s =
     (let (neg, ds) = unsigned s;
          ip = takeWhile (\<lambda>c. c \<noteq> CHR ''.'') ds;
          fp = drop 1 (dropWhile (\<lambda>c. c \<noteq> CHR ''.'') ds)
      in if ip = [] \<and> fp = [] then None
         else (case (nat_of_digits 0 ip, nat_of_digits 0 fp) of
                 (Some i, Some f) \<Rightarrow>
                   (let v = of_nat i + of_nat f / 10 ^ length fp in Some (if neg then - v else v))
               | _ \<Rightarrow> None))"

text \<open>
  An option declaration: its option strings, how many values it takes (\<^verbatim>\<open>nargs\<close> absent:
  exactly one; \<^verbatim>\<open>nargs='*'\<close>: any number), whether it is \<^verbatim>\<open>required\<close>, and how it
  converts and stores its values. No \<^verbatim>\<open>add_argument\<close> call of the script passes
  \<^verbatim>\<open>required\<close>, so each declaration has the library's default, \<open>False\<close>.
\<close>

datatype nargs = One | Star

record option_decl =
  flags :: "string list"
  n_args :: nargs
  required :: bool
  store :: "string list \<Rightarrow> args \<Rightarrow> args option"

definition str_option :: "string list \<Rightarrow> (string \<Rightarrow> args \<Rightarrow> args) \<Rightarrow> option_decl" where
  "str_option fs put =
     \<lparr>flags = fs, n_args = One, required = False,
      store = (\<lambda>vs a. Some (put (hd vs) a))\<rparr>"

definition int_option :: "string list \<Rightarrow> (int \<Rightarrow> args \<Rightarrow> args) \<Rightarrow> option_decl" where
  "int_option fs put =
     \<lparr>flags = fs, n_args = One, required = False,
      store = (\<lambda>vs a. map_option (\<lambda>v. put v a) (py_int (hd vs)))\<rparr>"

definition float_option :: "string list \<Rightarrow> (rat \<Rightarrow> args \<Rightarrow> args) \<Rightarrow> option_decl" where
  "float_option fs put =
     \<lparr>flags = fs, n_args = One, required = False,
      store = (\<lambda>vs a. map_option (\<lambda>v. put v a) (py_float (hd vs)))\<rparr>"

definition int_list_option :: "string list \<Rightarrow> (int list \<Rightarrow> args \<Rightarrow> args) \<Rightarrow> option_decl" where
  "int_list_option fs put =
     \<lparr>flags = fs, n_args = Star, required = False,
      store = (\<lambda>vs a. map_option (\<lambda>v. put v a) (those (map py_int vs)))\<rparr>"

definition float_list_option :: "string list \<Rightarrow> (rat list \<Rightarrow> args \<Rightarrow> args) \<Rightarrow> option_decl" where
  "float_list_option fs put =
     \<lparr>flags = fs, n_args = Star, required = False,
      store = (\<lambda>vs a. map_option (\<lambda>v. put v a) (those (map py_float vs)))\<rparr>"

definition parser :: "option_decl list" where
  "parser =
     [str_option [''--names''] (\<lambda>v a. a\<lparr>names := Some v\<rparr>),
      str_option [''--train''] (\<lambda>v a. a\<lparr>train := Some v\<rparr>),
      str_option [''--valid''] (\<lambda>v a. a\<lparr>valid := v\<rparr>),
      str_option [''--detection''] (\<lambda>v a. a\<lparr>detection := v\<rparr>),
      int_option [''--batchsize'', ''-b''] (\<lambda>v a. a\<lparr>batchsize := v\<rparr>),
      int_option [''--iteration'', ''-i''] (\<lambda>v a. a\<lparr>iteration := v\<rparr>),
      int_list_option [''--gpus'', ''-g''] (\<lambda>v a. a\<lparr>gpus := v\<rparr>),
      str_option [''--out'', ''-o''] (\<lambda>v a. a\<lparr>out := v\<rparr>),
      int_option [''--seed''] (\<lambda>v a. a\<lparr>seed := v\<rparr>),
      int_option [''--display_interval''] (\<lambda>v a. a\<lparr>display_interval := v\<rparr>),
      int_option [''--snapshot_interval''] (\<lambda>v a. a\<lparr>snapshot_interval := v\<rparr>),
      float_option [''--ignore_thresh''] (\<lambda>v a. a\<lparr>ignore_thresh := v\<rparr>),
      float_option [''--thresh''] (\<lambda>v a. a\<lparr>thresh := v\<rparr>),
      str_option [''--darknet''] (\<lambda>v a. a\<lparr>darknet := v\<rparr>),
      int_option [''--darknet_class''] (\<lambda>v a. a\<lparr>darknet_class := v\<rparr>),
      int_list_option [''--steps''] (\<lambda>v a. a\<lparr>steps := v\<rparr>),
      float_list_option [''--scales''] (\<lambda>v a. a\<lparr>scales := v\<rparr>)]"

text \<open>
  The command line is taken after the library has split it into option occurrences: an
  option string as declared and the value strings that follow it. How the library
  recognises an abbreviated or \<^verbatim>\<open>=\<close>-joined option string is not part of the model.
  \<^verbatim>\<open>parse_args\<close> starts from the defaults, stores each occurrence in turn (a later one
  overwrites an earlier one), and at the end reports the required options it has not
  seen. Every failure is the library's usage error, which ends the process with status 2.
\<close>

datatype usage_error =
  Unrecognized string
| Wrong_number_of_values string
| Invalid_value string
| Required_missing "string list"

type_synonym command_line = "(string \<times> string list) list"

definition find_option :: "string \<Rightarrow> option_decl option" where
  "find_option f = find (\<lambda>d. f \<in> set (flags d)) parser"

fun consume :: "command_line \<Rightarrow> args \<Rightarrow> usage_error + args" where
  "consume [] a = Inr a"
| "consume ((f, vs) # rest) a =
     (case find_option f of
        None \<Rightarrow> Inl (Unrecognized f)
      | Some d \<Rightarrow>
          if n_args d = One \<and> length vs \<noteq> 1 then Inl (Wrong_number_of_values f)
          else (case store d vs a of
                  None \<Rightarrow> Inl (Invalid_value f)
                | Some a' \<Rightarrow> consume rest a'))"

definition given :: "command_line \<Rightarrow> option_decl \<Rightarrow> bool" where
  "given cl d = list_ex (\<lambda>(f, vs). f \<in> set (flags d)) cl"

definition parse_args :: "command_line \<Rightarrow> usage_error + args" where
  "parse_args cl =
     (case consume cl defaults of
        Inl err \<Rightarrow> Inl err
      | Inr a \<Rightarrow>
          (let missing = filter (\<lambda>d. required d \<and> \<not> given cl d) parser
           in if missing = [] then Inr a else Inl (Required_missing (map (hd \<circ> flags) missing))))"

text \<open>The command line with every occurrence of one option string taken out.\<close>

definition without :: "string \<Rightarrow> command_line \<Rightarrow> command_line" where
  "without f cl = filter (\<lambda>occ. fst occ \<noteq> f) cl"

subsection \<open>What the script takes from its surroundings\<close>

text \<open>
  \<^verbatim>\<open>load_list(args.names)\<close>, \<^verbatim>\<open>load_list(args.detection)\<close> and
  \<^verbatim>\<open>PlotReport.available()\<close> read the file system and the installed packages. Their
  results are parameters of the model.
\<close>

record env =
  class_names :: "string list"
  detection_list :: "string list"
  plot_available :: bool

subsection \<open>The objects \<^verbatim>\<open>main\<close> builds\<close>

datatype dataset =
  YOLODataset "string option" bool bool "(rat \<times> rat \<times> rat \<times> rat) option"
  \<comment> \<open>path, \<^verbatim>\<open>train\<close>, \<^verbatim>\<open>classifier\<close>, and \<^verbatim>\<open>(jitter, hue, sat, val)\<close> when given\<close>

datatype iterator =
  MultiprocessIterator dataset int int  \<comment> \<open>dataset, batch size, \<^verbatim>\<open>shared_mem\<close>\<close>
| SerialIterator dataset int bool bool  \<comment> \<open>dataset, batch size, \<^verbatim>\<open>repeat\<close>, \<^verbatim>\<open>shuffle\<close>\<close>

datatype hook = WeightDecay rat | GradientClipping rat

record optimizer =
  lr :: rat
  hooks :: "(string \<times> hook) list"

record yolo_model =
  n_classes :: nat  \<comment> \<open>\<^verbatim>\<open>len(class_names)\<close>\<close>
  base :: "int option"  \<comment> \<open>the class count of the \<^verbatim>\<open>Darknet53\<close> whose base is used, if any\<close>
  model_ignore_thresh :: rat
  on_gpu :: bool  \<comment> \<open>whether \<^verbatim>\<open>model.to_gpu()\<close> was called\<close>

datatype updater =
  StandardUpdater iterator int  \<comment> \<open>iterator, \<^verbatim>\<open>device\<close>\<close>
| ParallelUpdater iterator "(string \<times> int) list"  \<comment> \<open>iterator, \<^verbatim>\<open>devices\<close>\<close>

text \<open>
  A trigger is written in the script as a pair \<^verbatim>\<open>(n, 'iteration')\<close>, which the framework
  reads as an interval trigger of period \<^verbatim>\<open>n\<close>, or as
  \<^verbatim>\<open>MinValueTrigger(key, (n, 'iteration'))\<close>. The unit is \<^verbatim>\<open>'iteration'\<close> throughout.
  A minimum-value trigger is an object with a state, the best value it has seen, which is
  its third component here (\<open>None\<close> when it is built).
\<close>

datatype trigger =
  IntervalTrigger int
| MinValueTrigger string int "rat option"

datatype extension =
  Evaluator iterator int
| Dump_graph string
| LogReport trigger
| PlotReport "string list" string trigger string
| PrintReport "string list"
| ProgressBar int
| Snapshot_object string
| DarknetShift string int int "int list" "rat list"
  \<comment> \<open>attribute, maximum iteration, \<^verbatim>\<open>burn_in\<close>, \<^verbatim>\<open>steps\<close>, \<^verbatim>\<open>scales\<close>\<close>
| CropSizeUpdater dataset "int list" int
| YOLODetection rat "string list" "string list" "int \<times> int" rat trigger int
  \<comment> \<open>the predictor's threshold, images, class names, size, threshold, \<^verbatim>\<open>trigger\<close>, \<^verbatim>\<open>device\<close>\<close>

text \<open>
  \<^verbatim>\<open>trainer.extend(e, trigger=t)\<close> registers \<open>(e, Some t)\<close>; \<^verbatim>\<open>trainer.extend(e)\<close>
  registers \<open>(e, None)\<close>, and the extension then runs on its own default trigger.
\<close>

type_synonym entry = "extension \<times> trigger option"

record trainer =
  model :: yolo_model
  opt :: optimizer
  upd :: updater
  stop_trigger :: trigger
  out_dir :: string
  extensions :: "entry list"

subsection \<open>\<^verbatim>\<open>main\<close>, lines 50 to 162\<close>

text \<open>Lines 55 to 69: the backbone, the detector and the device.\<close>

definition darknet53_classes :: "args \<Rightarrow> string list \<Rightarrow> int" where
  "darknet53_classes a cn =
     (if darknet_class a > 0 then darknet_class a else int (length cn))"

definition select_device :: "args \<Rightarrow> int" where
  "select_device a = (if length (gpus a) > 0 then hd (gpus a) else - 1)"

definition build_model :: "env \<Rightarrow> args \<Rightarrow> yolo_model" where
  "build_model e a =
     \<lparr>n_classes = length (class_names e),
      base = (if length (darknet a) > 0
              then Some (darknet53_classes a (class_names e)) else None),
      model_ignore_thresh = ignore_thresh a,
      on_gpu = (length (gpus a) = 1)\<rparr>"

text \<open>Lines 71 to 74: the optimizer and its two hooks.\<close>

definition build_optimizer :: optimizer where
  "build_optimizer =
     \<lparr>lr = 1 / 1000,
      hooks = [(''hook_decay'', WeightDecay (5 / 10000)),
               (''hook_grad_clip'', GradientClipping 10)]\<rparr>"

text \<open>Lines 76 to 82: the training set and its iterator.\<close>

definition train_dataset :: "args \<Rightarrow> dataset" where
  "train_dataset a = YOLODataset (train a) True False (Some (3 / 10, 1 / 10, 3 / 2, 3 / 2))"

definition shared_mem :: int where
  "shared_mem = (448 ^ 2 * 3 + (1 + 4) * 100) * 4"

definition train_iter :: "args \<Rightarrow> iterator" where
  "train_iter a = MultiprocessIterator (train_dataset a) (batchsize a) shared_mem"

text \<open>
  Lines 84 to 92: the updater. \<^verbatim>\<open>'gpu{}'.format(gpu)\<close> writes the integer in decimal,
  with a minus sign when it is negative. The dictionary \<^verbatim>\<open>devices\<close> is an association
  list; assigning to a key that is present replaces its value in place, as Python does.
\<close>

definition digit_char :: "nat \<Rightarrow> char" where
  "digit_char d = ''0123456789'' ! d"

fun str_nat :: "nat \<Rightarrow> string" where
  "str_nat n = (if n < 10 then [digit_char n] else str_nat (n div 10) @ [digit_char (n mod 10)])"

declare str_nat.simps [simp del]

definition str_int :: "int \<Rightarrow> string" where
  "str_int i = (if i < 0 then CHR ''-'' # str_nat (nat (- i)) else str_nat (nat i))"

definition gpu_key :: "int \<Rightarrow> string" where
  "gpu_key g = ''gpu'' @ str_int g"

definition build_devices :: "int list \<Rightarrow> (string \<times> int) list" where
  "build_devices gs =
     fold (\<lambda>gpu devices. AList.update (gpu_key gpu) gpu devices) (tl gs) [(''main'', hd gs)]"

definition build_updater :: "args \<Rightarrow> updater" where
  "build_updater a =
     (if length (gpus a) \<le> 1 then StandardUpdater (train_iter a) (select_device a)
      else ParallelUpdater (train_iter a) (build_devices (gpus a)))"

text \<open>Lines 96 to 107: the two intervals and the keys that depend on \<^verbatim>\<open>--valid\<close>.\<close>

definition print_entries :: "args \<Rightarrow> string list" where
  "print_entries a =
     (if length (valid a) > 0
      then [''epoch'', ''iteration'', ''main/loss'', ''validation/main/loss'', ''elapsed_time'']
      else [''epoch'', ''iteration'', ''main/loss'', ''elapsed_time''])"

definition plot_keys :: "args \<Rightarrow> string list" where
  "plot_keys a =
     (if length (valid a) > 0 then [''main/loss'', ''validation/main/loss'']
      else [''main/loss''])"

definition snapshot_key :: "args \<Rightarrow> string" where
  "snapshot_key a = (if length (valid a) > 0 then ''validation/main/loss'' else ''main/loss'')"

text \<open>
  Lines 139 to 142: the loop over the indices of \<^verbatim>\<open>steps\<close>, which overwrites a negative
  entry in place.
\<close>

definition resolve_steps :: "int \<Rightarrow> int list \<Rightarrow> int list" where
  "resolve_steps n ss =
     fold (\<lambda>i s. if s ! i < 0 then s[i := n + s ! i] else s) [0..<length ss] ss"

text \<open>The calls of \<^verbatim>\<open>trainer.extend\<close>, in the order of the script.\<close>

definition validation_extensions :: "args \<Rightarrow> entry list" where
  "validation_extensions a =
     (if length (valid a) > 0
      then [(Evaluator
               (SerialIterator (YOLODataset (Some (valid a)) False False None)
                  (batchsize a) False False)
               (select_device a),
             Some (IntervalTrigger (display_interval a)))]
      else [])"

definition report_extensions :: "env \<Rightarrow> args \<Rightarrow> entry list" where
  "report_extensions e a =
     [(Dump_graph ''main/loss'', None),
      (LogReport (IntervalTrigger (display_interval a)), None)]
     @ (if plot_available e
        then [(PlotReport (plot_keys a) ''iteration'' (IntervalTrigger (display_interval a))
                 ''loss.png'', None)]
        else [])
     @ [(PrintReport (print_entries a), Some (IntervalTrigger (display_interval a))),
        (ProgressBar 1, None)]"

definition snapshot_extensions :: "args \<Rightarrow> entry list" where
  "snapshot_extensions a =
     [(Snapshot_object ''yolov3_snapshot.npz'',
         Some (MinValueTrigger (snapshot_key a) (snapshot_interval a) None)),
      (Snapshot_object ''yolov3_backup.npz'', Some (IntervalTrigger (snapshot_interval a))),
      (Snapshot_object ''yolov3_final.npz'', Some (IntervalTrigger (iteration a)))]"

definition crop_sizes :: "int list" where
  "crop_sizes = map (\<lambda>i. (10 + int i) * 32) [0..<5]"

definition schedule_extensions :: "args \<Rightarrow> entry list" where
  "schedule_extensions a =
     [(DarknetShift ''steps'' (iteration a) 1000
         (resolve_steps (iteration a) (steps a)) (scales a), None),
      (CropSizeUpdater (train_dataset a) crop_sizes (iteration a - 200), None)]"

definition detection_extensions :: "env \<Rightarrow> args \<Rightarrow> entry list" where
  "detection_extensions e a =
     (if length (detection a) \<noteq> 0
      then [(YOLODetection (thresh a) (detection_list e) (class_names e) (416, 416)
               (thresh a) (IntervalTrigger (display_interval a)) (select_device a),
             None)]
      else [])"

definition main :: "env \<Rightarrow> args \<Rightarrow> trainer" where
  "main e a =
     \<lparr>model = build_model e a,
      opt = build_optimizer,
      upd = build_updater a,
      stop_trigger = IntervalTrigger (iteration a),
      out_dir = out a,
      extensions =
        validation_extensions a @ report_extensions e a @ snapshot_extensions a
        @ schedule_extensions a @ detection_extensions e a\<rparr>"

subsection \<open>The trainer's loop\<close>

text \<open>
  Modelled from the spec: the trainer, its interval and minimum-value triggers and the
  order in which the loop consults them are the framework's and are not among the
  repository's files. Section 4.4: ``for each iteration, pull one batch, compute forward
  loss, backpropagate, apply optimizer step, advance counter''. Section 4.5: ``Each
  extension is a (predicate-on-iteration, action) pair evaluated by the loop'', an
  interval makes an extension ``fire every'' so many iterations, and the best snapshot
  ``overwrites only when the tracked metric (validation loss if present, else training
  loss) improves since last check, evaluated every \<^verbatim>\<open>snapshot_interval\<close>''. Section 8:
  ``the best-snapshot write occurs only on strictly-improving checks, and its last write
  corresponds to the global minimum'', so the value a check has to improve on is the
  least value of the checks before it, which is what the script's choice of a
  \<^verbatim>\<open>MinValueTrigger\<close> names. Section 5: ``the only external stop condition is reaching
  the configured total iteration count''.

  An interval trigger of period \<open>p\<close> fires at the iterations \<open>p\<close>, \<open>2p\<close>, \<open>3p\<close>, ...;
  the test is a remainder, so a period of zero is a division by zero. A minimum-value
  trigger looks at its key when its interval fires, and fires when it has no best value
  yet or the value is strictly below the best, which it then replaces. The value a key
  has at the check of iteration \<open>t\<close> is given by a function of the key and \<open>t\<close>.
\<close>

datatype py_error = ZeroDivisionError

type_synonym metrics = "string \<Rightarrow> int \<Rightarrow> rat"

definition interval_fires :: "int \<Rightarrow> int \<Rightarrow> py_error + bool" where
  "interval_fires p t =
     (if t \<le> 0 then Inr False
      else if p = 0 then Inl ZeroDivisionError
      else Inr (t mod p = 0))"

fun poll :: "metrics \<Rightarrow> int \<Rightarrow> trigger \<Rightarrow> py_error + (bool \<times> trigger)" where
  "poll m t (IntervalTrigger p) =
     (case interval_fires p t of
        Inl err \<Rightarrow> Inl err
      | Inr b \<Rightarrow> Inr (b, IntervalTrigger p))"
| "poll m t (MinValueTrigger key p best) =
     (case interval_fires p t of
        Inl err \<Rightarrow> Inl err
      | Inr b \<Rightarrow>
          if b \<and> (case best of None \<Rightarrow> True | Some v \<Rightarrow> m key t < v)
          then Inr (True, MinValueTrigger key p (Some (m key t)))
          else Inr (False, MinValueTrigger key p best))"

text \<open>
  After each update the loop consults every registered trigger. The record of a run keeps,
  for the extensions registered with a trigger of the script's, the iterations at which
  each was invoked; an extension registered without one runs on a trigger of its own,
  which the script does not set, and is not recorded.
\<close>

fun invoke_all :: "metrics \<Rightarrow> int \<Rightarrow> entry list \<Rightarrow> py_error + (entry list \<times> extension list)" where
  "invoke_all m t [] = Inr ([], [])"
| "invoke_all m t ((x, None) # es) =
     (case invoke_all m t es of
        Inl err \<Rightarrow> Inl err
      | Inr (es', xs) \<Rightarrow> Inr ((x, None) # es', xs))"
| "invoke_all m t ((x, Some tr) # es) =
     (case poll m t tr of
        Inl err \<Rightarrow> Inl err
      | Inr (b, tr') \<Rightarrow>
          (case invoke_all m t es of
             Inl err \<Rightarrow> Inl err
           | Inr (es', xs) \<Rightarrow> Inr ((x, Some tr') # es', (if b then [x] else []) @ xs)))"

record run_state =
  iteration_count :: int
  entries :: "entry list"
  fired :: "(int \<times> extension) list"

definition update :: "metrics \<Rightarrow> run_state \<Rightarrow> py_error + run_state" where
  "update m s =
     (let t = iteration_count s + 1 in
      case invoke_all m t (entries s) of
        Inl err \<Rightarrow> Inl err
      | Inr (es, xs) \<Rightarrow> Inr \<lparr>iteration_count = t, entries = es, fired = fired s @ map (Pair t) xs\<rparr>)"

partial_function (option) run_loop ::
  "metrics \<Rightarrow> trigger \<Rightarrow> run_state \<Rightarrow> (py_error + run_state) option" where
  "run_loop m stop s =
     (case poll m (iteration_count s) stop of
        Inl err \<Rightarrow> Some (Inl err)
      | Inr (b, stop') \<Rightarrow>
          if b then Some (Inr s)
          else (case update m s of
                  Inl err \<Rightarrow> Some (Inl err)
                | Inr s' \<Rightarrow> run_loop m stop' s'))"

definition initial :: "trainer \<Rightarrow> run_state" where
  "initial tr = \<lparr>iteration_count = 0, entries = extensions tr, fired = []\<rparr>"

definition run :: "metrics \<Rightarrow> trainer \<Rightarrow> (py_error + run_state) option" where
  "run m tr = run_loop m (stop_trigger tr) (initial tr)"

subsection \<open>A run without errors, iteration by iteration\<close>

text \<open>
  When no period is zero, polling a trigger is a pair of total functions: whether it
  fires at iteration \<open>t\<close>, and the state it is left in. \<open>state_after m es k\<close> is the
  state of the loop after \<open>k\<close> updates of the initial state with the entries \<open>es\<close>, and
  \<open>updates m n\<close> is \<open>n\<close> updates one after the other, stopping at the first error.
\<close>

fun period :: "trigger \<Rightarrow> int" where
  "period (IntervalTrigger p) = p"
| "period (MinValueTrigger key p best) = p"

fun fires :: "metrics \<Rightarrow> int \<Rightarrow> trigger \<Rightarrow> bool" where
  "fires m t (IntervalTrigger p) = (t mod p = 0)"
| "fires m t (MinValueTrigger key p best) =
     (t mod p = 0 \<and> (case best of None \<Rightarrow> True | Some v \<Rightarrow> m key t < v))"

fun advance :: "metrics \<Rightarrow> int \<Rightarrow> trigger \<Rightarrow> trigger" where
  "advance m t (IntervalTrigger p) = IntervalTrigger p"
| "advance m t (MinValueTrigger key p best) =
     (if fires m t (MinValueTrigger key p best) then MinValueTrigger key p (Some (m key t))
      else MinValueTrigger key p best)"

fun entry_ok :: "entry \<Rightarrow> bool" where
  "entry_ok (x, None) = True"
| "entry_ok (x, Some tr) = (period tr \<noteq> 0)"

fun advance_entry :: "metrics \<Rightarrow> int \<Rightarrow> entry \<Rightarrow> entry" where
  "advance_entry m t (x, None) = (x, None)"
| "advance_entry m t (x, Some tr) = (x, Some (advance m t tr))"

fun entry_fires :: "metrics \<Rightarrow> int \<Rightarrow> entry \<Rightarrow> bool" where
  "entry_fires m t (x, None) = False"
| "entry_fires m t (x, Some tr) = fires m t tr"

definition fired_at :: "metrics \<Rightarrow> int \<Rightarrow> entry list \<Rightarrow> extension list" where
  "fired_at m t es = map fst (filter (entry_fires m t) es)"

primrec state_after :: "metrics \<Rightarrow> entry list \<Rightarrow> nat \<Rightarrow> run_state" where
  "state_after m es 0 = \<lparr>iteration_count = 0, entries = es, fired = []\<rparr>"
| "state_after m es (Suc k) =
     \<lparr>iteration_count = int (Suc k),
      entries = map (advance_entry m (int (Suc k))) (entries (state_after m es k)),
      fired = fired (state_after m es k)
              @ map (Pair (int (Suc k))) (fired_at m (int (Suc k)) (entries (state_after m es k)))\<rparr>"

fun updates :: "metrics \<Rightarrow> nat \<Rightarrow> run_state \<Rightarrow> py_error + run_state" where
  "updates m 0 s = Inr s"
| "updates m (Suc n) s = (case update m s of Inl err \<Rightarrow> Inl err | Inr s' \<Rightarrow> updates m n s')"

text \<open>The entries registered for one extension.\<close>

definition only :: "extension \<Rightarrow> entry list \<Rightarrow> entry list" where
  "only x es = filter (\<lambda>en. fst en = x) es"

text \<open>
  The checks before iteration \<open>t\<close> are the multiples of the period from 1 to
  \<open>t - 1\<close>. The check of iteration \<open>t\<close> improves when the value of the key is strictly
  below its value at every earlier check; and \<open>b\<close> is the least value over the checks
  up to \<open>t\<close>, or \<open>None\<close> when there has been no check.
\<close>

definition checks_before :: "int \<Rightarrow> int \<Rightarrow> int list" where
  "checks_before p t = filter (\<lambda>j. j mod p = 0) [1..t - 1]"

definition improves :: "metrics \<Rightarrow> string \<Rightarrow> int \<Rightarrow> int \<Rightarrow> bool" where
  "improves m key p t = list_all (\<lambda>j. m key t < m key j) (checks_before p t)"

definition best_so_far :: "metrics \<Rightarrow> string \<Rightarrow> int \<Rightarrow> int \<Rightarrow> rat option \<Rightarrow> bool" where
  "best_so_far m key p t b =
     (case b of
        None \<Rightarrow> (\<forall>j. 0 < j \<and> j \<le> t \<longrightarrow> j mod p \<noteq> 0)
      | Some v \<Rightarrow> (\<exists>j. 0 < j \<and> j \<le> t \<and> j mod p = 0 \<and> v = m key j)
                  \<and> (\<forall>j. 0 < j \<and> j \<le> t \<and> j mod p = 0 \<longrightarrow> v \<le> m key j))"


subsection \<open>Reading the built objects\<close>

fun shift_steps :: "extension \<Rightarrow> int list option" where
  "shift_steps (DarknetShift attr mx b ss sc) = Some ss"
| "shift_steps _ = None"

fun shift_burn_in :: "extension \<Rightarrow> int option" where
  "shift_burn_in (DarknetShift attr mx b ss sc) = Some b"
| "shift_burn_in _ = None"

definition iterator_of :: "updater \<Rightarrow> iterator" where
  "iterator_of u = (case u of StandardUpdater it d \<Rightarrow> it | ParallelUpdater it ds \<Rightarrow> it)"

definition shared_mem_of :: "iterator \<Rightarrow> int option" where
  "shared_mem_of it =
     (case it of MultiprocessIterator d b sz \<Rightarrow> Some sz | SerialIterator d b r s \<Rightarrow> None)"

subsection \<open>The reporting extensions\<close>







subsection \<open>The crop-size updater\<close>

text \<open>
  Modelled from the spec: \<^verbatim>\<open>lib/extensions/crop_size_updater.py\<close> is not among the
  repository's files. Section 8: ``for iteration \<open>t\<close> in \<open>[0, cutoff)\<close>, selected size is
  a deterministic step function of \<open>t\<close> drawn only from'' the candidates; ``for
  \<open>t \<ge> cutoff\<close>, size is frozen''. The spec does not say which step function, so it is
  a parameter: \<open>stage t\<close> is the position in the candidate list selected at iteration
  \<open>t\<close>. A position outside the list is an index error, the value \<open>None\<close>.
\<close>

definition crop_size_update ::
  "(int \<Rightarrow> nat) \<Rightarrow> int list \<Rightarrow> int \<Rightarrow> int \<Rightarrow> int \<Rightarrow> int option" where
  "crop_size_update stage sizes cutoff t current =
     (if t < cutoff
      then (if stage t < length sizes then Some (sizes ! stage t) else None)
      else Some current)"

fun crop_updater_args :: "extension \<Rightarrow> (int list \<times> int) option" where
  "crop_updater_args (CropSizeUpdater d sizes cutoff) = Some (sizes, cutoff)"
| "crop_updater_args _ = None"

subsection \<open>A small run\<close>

text \<open>
  The end-to-end scenario of the spec's section 8: batch size 1, four iterations, no
  validation set and no detection list, both intervals 2.
\<close>

definition scenario_args :: args where
  "scenario_args =
     defaults\<lparr>names := Some ''names.txt'', train := Some ''train.txt'', batchsize := 1,
       iteration := 4, display_interval := 2, snapshot_interval := 2\<rparr>"

definition scenario_env :: env where
  "scenario_env =
     \<lparr>class_names = [''person'', ''dog''], detection_list = [], plot_available = False\<rparr>"

definition scenario_stage :: "int \<Rightarrow> nat" where
  "scenario_stage t = nat (t mod 5)"

text \<open>
  The losses of the small run: the value reported at iteration 2 is 5 and every other
  value is 7, so the check at iteration 2 improves and the check at iteration 4 does not.
\<close>

definition scenario_metrics :: metrics where
  "scenario_metrics key t = (if t = 2 then 5 else 7)"

section \<open>Properties\<close>

lemmas extension_lists =
  validation_extensions_def report_extensions_def snapshot_extensions_def
  schedule_extensions_def detection_extensions_def

lemma map_filter_append: "List.map_filter f (xs @ ys) = List.map_filter f xs @ List.map_filter f ys"
  by (simp add: map_filter_def)

lemma resolve_prefix:
  fixes ss :: "int list" and n :: int
  defines "F \<equiv> \<lambda>i s. if s ! i < 0 then s[i := n + s ! i] else s"
      and "g \<equiv> \<lambda>v. if v < 0 then n + v else v"
  shows "k \<le> length ss \<Longrightarrow> fold F [0..<k] ss = map g (take k ss) @ drop k ss"
proof (induction k)
  case 0
  show ?case by simp
next
  case (Suc k)
  then have k: "k < length ss" by simp
  let ?mid = "map g (take k ss) @ drop k ss"
  have at: "?mid ! k = ss ! k" using k by (simp add: nth_append)
  have "fold F [0..<Suc k] ss = F k (fold F [0..<k] ss)" by simp
  also have "\<dots> = F k ?mid" using Suc.IH k by simp
  also have "\<dots> = (if ss ! k < 0 then ?mid[k := n + ss ! k] else ?mid)"
    unfolding F_def at ..
  also have "\<dots> = ?mid[k := g (ss ! k)]"
  proof (cases "ss ! k < 0")
    case True
    then show ?thesis by (simp only: g_def if_True)
  next
    case False
    have "?mid[k := ?mid ! k] = ?mid" by (rule list_update_id)
    then have "?mid[k := ss ! k] = ?mid" by (simp only: at)
    with False show ?thesis by (simp only: g_def if_False)
  qed
  also have "\<dots> = map g (take (Suc k) ss) @ drop (Suc k) ss"
    using k by (simp add: take_Suc_conv_app_nth list_update_append Cons_nth_drop_Suc [symmetric])
  finally show ?case .
qed

lemma resolve_steps_map: "resolve_steps n ss = map (\<lambda>v. if v < 0 then n + v else v) ss"
  unfolding resolve_steps_def using resolve_prefix [of "length ss" ss n] by simp

subsection \<open>The step boundaries\<close>

text \<open>
  C1. The loop of lines 139 to 142 replaces every negative entry \<open>v\<close> of \<^verbatim>\<open>--steps\<close> by
  \<^verbatim>\<open>args.iteration + v\<close> and leaves every other entry as it is. \<^verbatim>\<open>main\<close> builds one
  \<^verbatim>\<open>DarknetShift\<close>, and the steps it is given are the entries resolved in this way, once:
  an entry that is still negative after the addition is passed on as it is.
\<close>

theorem steps_resolved_once:
  "resolve_steps (iteration a) (steps a)
     = map (\<lambda>v. if v < 0 then iteration a + v else v) (steps a)
   \<and> List.map_filter (shift_steps \<circ> fst) (extensions (main e a))
     = [map (\<lambda>v. if v < 0 then iteration a + v else v) (steps a)]"
  by (simp add: resolve_steps_map main_def extension_lists map_filter_simps map_filter_append)

subsection \<open>The shared-memory size\<close>

text \<open>
  C8. The training iterator is a \<^verbatim>\<open>MultiprocessIterator\<close> whose \<^verbatim>\<open>shared_mem\<close> is
  \<open>(448\<^sup>2 \<cdot> 3 + (1 + 4) \<cdot> 100) \<cdot> 4 = 2410448\<close> for every command line, whichever updater
  holds the iterator.
\<close>

theorem shared_mem_size:
  "shared_mem = (448 ^ 2 * 3 + (1 + 4) * 100) * 4 \<and> shared_mem = 2410448
   \<and> shared_mem_of (iterator_of (upd (main e a))) = Some 2410448"
  by (simp add: shared_mem_def main_def build_updater_def train_iter_def iterator_of_def shared_mem_of_def)

subsection \<open>The class count of the backbone\<close>

text \<open>
  C9. When \<^verbatim>\<open>--darknet\<close> is given, the \<^verbatim>\<open>Darknet53\<close> is built with
  \<^verbatim>\<open>args.darknet_class\<close> classes when that number is strictly positive, and with the
  number of class names for every other value, zero and every negative number alike.
  So, the names file not being empty, the class count is \<^verbatim>\<open>args.darknet_class\<close> exactly
  when that number is strictly positive (with an empty names file and the value 0 the two
  counts are the same number). Without \<^verbatim>\<open>--darknet\<close> no backbone is loaded.
\<close>

theorem darknet_class_fallback:
  "(darknet a \<noteq> [] \<and> 0 < darknet_class a \<longrightarrow> base (model (main e a)) = Some (darknet_class a))
   \<and> (darknet a \<noteq> [] \<and> darknet_class a \<le> 0 \<longrightarrow>
        base (model (main e a)) = Some (int (length (class_names e))))
   \<and> (darknet a \<noteq> [] \<and> class_names e \<noteq> [] \<longrightarrow>
        (base (model (main e a)) = Some (darknet_class a) \<longleftrightarrow> 0 < darknet_class a))
   \<and> (darknet a = [] \<longrightarrow> base (model (main e a)) = None)"
proof (intro conjI impI)
  assume h: "darknet a \<noteq> [] \<and> class_names e \<noteq> []"
  then have pos: "0 < int (length (class_names e))" by simp
  show "base (model (main e a)) = Some (darknet_class a) \<longleftrightarrow> 0 < darknet_class a"
  proof (cases "0 < darknet_class a")
    case True
    with h show ?thesis by (simp add: main_def build_model_def darknet53_classes_def)
  next
    case False
    with pos have "int (length (class_names e)) \<noteq> darknet_class a" by linarith
    with False h show ?thesis by (simp add: main_def build_model_def darknet53_classes_def)
  qed
qed (simp_all add: main_def build_model_def darknet53_classes_def)

theorem darknet_class_fallback_witness:
  "base (model (main scenario_env (scenario_args\<lparr>darknet := ''darknet53.npz'', darknet_class := 1000\<rparr>))) = Some 1000
   \<and> base (model (main scenario_env (scenario_args\<lparr>darknet := ''darknet53.npz'', darknet_class := 0\<rparr>))) = Some 2
   \<and> base (model (main scenario_env (scenario_args\<lparr>darknet := ''darknet53.npz''\<rparr>))) = Some 2
   \<and> base (model (main scenario_env (scenario_args\<lparr>darknet := ''darknet53.npz''\<rparr>))) \<noteq> Some (- 1)
   \<and> base (model (main scenario_env scenario_args)) = None"
  using darknet_class_fallback [of "scenario_args\<lparr>darknet := ''darknet53.npz'', darknet_class := 1000\<rparr>" scenario_env]
    darknet_class_fallback [of "scenario_args\<lparr>darknet := ''darknet53.npz'', darknet_class := 0\<rparr>" scenario_env]
    darknet_class_fallback [of "scenario_args\<lparr>darknet := ''darknet53.npz''\<rparr>" scenario_env]
    darknet_class_fallback [of scenario_args scenario_env]
  by (simp add: scenario_args_def scenario_env_def defaults_def)

subsection \<open>The optimizer's constants\<close>

text \<open>
  C10. Whatever the command line and the surroundings, the optimizer has learning rate
  \<open>0.001\<close>, a weight decay of \<open>0.0005\<close> and gradient clipping at \<open>10.0\<close>, and the one
  \<^verbatim>\<open>DarknetShift\<close> is built with a burn-in of 1000 iterations.
\<close>

theorem optimizer_constants:
  "opt (main e a) =
     \<lparr>lr = 1 / 1000,
      hooks = [(''hook_decay'', WeightDecay (5 / 10000)), (''hook_grad_clip'', GradientClipping 10)]\<rparr>
   \<and> List.map_filter (shift_burn_in \<circ> fst) (extensions (main e a)) = [1000]
   \<and> opt (main e a) = opt (main e' a')"
  by (simp add: main_def build_optimizer_def extension_lists map_filter_simps map_filter_append)

subsection \<open>The updater and the devices\<close>

text \<open>
  Writing an integer in decimal and reading it back gives the integer, so two device ids
  have the same dictionary key only when they are equal.
\<close>

lemma digit_of_digit_char: "d < 10 \<Longrightarrow> digit_of (digit_char d) = Some d"
proof -
  assume "d < 10"
  then consider "d = 0" | "d = 1" | "d = 2" | "d = 3" | "d = 4"
    | "d = 5" | "d = 6" | "d = 7" | "d = 8" | "d = 9"
    by atomize_elim presburger
  then show ?thesis by cases (simp_all add: digit_of_def digit_char_def)
qed

lemma nat_of_digits_snoc:
  "nat_of_digits acc (xs @ [c]) =
     (case nat_of_digits acc xs of
        None \<Rightarrow> None
      | Some v \<Rightarrow> (case digit_of c of None \<Rightarrow> None | Some d \<Rightarrow> Some (10 * v + d)))"
  by (induction xs arbitrary: acc) (auto split: option.splits)

lemma nat_of_digits_str_nat: "nat_of_digits 0 (str_nat n) = Some n"
proof (induction n rule: str_nat.induct)
  case (1 n)
  show ?case
  proof (cases "n < 10")
    case True
    then show ?thesis by (subst str_nat.simps) (simp add: digit_of_digit_char)
  next
    case False
    with 1 have "nat_of_digits 0 (str_nat (n div 10)) = Some (n div 10)" by simp
    with False show ?thesis
      by (subst str_nat.simps) (simp add: nat_of_digits_snoc digit_of_digit_char)
  qed
qed

lemma str_nat_head: "str_nat n \<noteq> [] \<and> digit_of (hd (str_nat n)) \<noteq> None"
proof (induction n rule: str_nat.induct)
  case (1 n)
  show ?case
  proof (cases "n < 10")
    case True
    then show ?thesis by (subst (1 2) str_nat.simps) (simp add: digit_of_digit_char)
  next
    case False
    with 1 have "str_nat (n div 10) \<noteq> [] \<and> digit_of (hd (str_nat (n div 10))) \<noteq> None" by simp
    with False show ?thesis by (subst (1 2) str_nat.simps) simp
  qed
qed

lemma unsigned_str_nat: "unsigned (str_nat n) = (False, str_nat n)"
proof -
  have "digit_of (CHR ''-'') = None" "digit_of (CHR ''+'') = None"
    by (simp_all add: digit_of_def)
  with str_nat_head [of n] have "hd (str_nat n) \<noteq> CHR ''-''" "hd (str_nat n) \<noteq> CHR ''+''"
    by auto
  then show ?thesis by (simp add: unsigned_def)
qed

lemma py_int_str_int: "py_int (str_int i) = Some i"
proof (cases "i < 0")
  case True
  have "unsigned (CHR ''-'' # str_nat (nat (- i))) = (True, str_nat (nat (- i)))"
    by (simp add: unsigned_def)
  with True show ?thesis
    using str_nat_head [of "nat (- i)"]
    by (simp add: py_int_def str_int_def nat_of_digits_str_nat)
next
  case False
  then show ?thesis
    using str_nat_head [of "nat i"]
    by (simp add: py_int_def str_int_def unsigned_str_nat nat_of_digits_str_nat)
qed

lemma gpu_key_inj: "gpu_key g = gpu_key h \<Longrightarrow> g = h"
proof -
  assume "gpu_key g = gpu_key h"
  then have "str_int g = str_int h" by (simp add: gpu_key_def)
  then have "py_int (str_int g) = py_int (str_int h)" by simp
  then show "g = h" by (simp add: py_int_str_int)
qed

lemma gpu_key_not_main: "gpu_key g \<noteq> ''main''" "''main'' \<noteq> gpu_key g"
  by (simp_all add: gpu_key_def)

lemma map_of_devices:
  "map_of (fold (\<lambda>gpu devices. AList.update (gpu_key gpu) gpu devices) gs init)
     = fold (\<lambda>gpu m. m(gpu_key gpu \<mapsto> gpu)) gs (map_of init)"
  by (induction gs arbitrary: init) (simp_all add: update_conv')

lemma fold_devices_main:
  "fold (\<lambda>gpu m. m(gpu_key gpu \<mapsto> gpu)) gs m0 ''main'' = m0 ''main''"
  by (induction gs arbitrary: m0) (simp_all add: gpu_key_not_main)

lemma fold_devices_gpu:
  "g \<in> set gs \<Longrightarrow> fold (\<lambda>gpu m. m(gpu_key gpu \<mapsto> gpu)) gs m0 (gpu_key g) = Some g"
proof (induction gs arbitrary: m0 rule: rev_induct)
  case Nil
  then show ?case by simp
next
  case (snoc x xs)
  show ?case
  proof (cases "gpu_key x = gpu_key g")
    case True
    then have "x = g" by (rule gpu_key_inj)
    then show ?thesis by simp
  next
    case False
    with snoc.prems have "g \<in> set xs" by auto
    with snoc.IH False show ?thesis by simp
  qed
qed

lemma fold_devices_dom:
  "dom (fold (\<lambda>gpu m. m(gpu_key gpu \<mapsto> gpu)) gs m0) = dom m0 \<union> gpu_key ` set gs"
  by (induction gs arbitrary: m0) auto

text \<open>
  C7. The length of \<^verbatim>\<open>--gpus\<close> alone selects the updater. No id: a \<^verbatim>\<open>StandardUpdater\<close>
  on device \<open>-1\<close>, the model left on the CPU. One id: a \<^verbatim>\<open>StandardUpdater\<close> on that
  device, the model moved to the GPU. More than one: a \<^verbatim>\<open>ParallelUpdater\<close> whose
  dictionary maps \<^verbatim>\<open>'main'\<close> to the first id and \<^verbatim>\<open>'gpu{g}'\<close> to \<open>g\<close> for each further
  id \<open>g\<close>, and has no other key.
\<close>

theorem updater_by_gpu_count:
  "(gpus a = [] \<longrightarrow>
      upd (main e a) = StandardUpdater (train_iter a) (- 1) \<and> \<not> on_gpu (model (main e a)))
   \<and> (\<forall>g. gpus a = [g] \<longrightarrow>
      upd (main e a) = StandardUpdater (train_iter a) g \<and> on_gpu (model (main e a)))
   \<and> (1 < length (gpus a) \<longrightarrow>
      (\<exists>devices. upd (main e a) = ParallelUpdater (train_iter a) devices
         \<and> map_of devices ''main'' = Some (hd (gpus a))
         \<and> (\<forall>g \<in> set (tl (gpus a)). map_of devices (gpu_key g) = Some g)
         \<and> dom (map_of devices) = insert ''main'' (gpu_key ` set (tl (gpus a)))))"
proof (intro conjI impI allI)
  assume "1 < length (gpus a)"
  then have u: "upd (main e a) = ParallelUpdater (train_iter a) (build_devices (gpus a))"
    by (simp add: main_def build_updater_def)
  have "map_of (build_devices (gpus a)) ''main'' = Some (hd (gpus a))"
    by (simp add: build_devices_def map_of_devices fold_devices_main)
  moreover have "\<forall>g \<in> set (tl (gpus a)). map_of (build_devices (gpus a)) (gpu_key g) = Some g"
    by (simp add: build_devices_def map_of_devices fold_devices_gpu)
  moreover have "dom (map_of (build_devices (gpus a))) = insert ''main'' (gpu_key ` set (tl (gpus a)))"
    by (simp add: build_devices_def map_of_devices fold_devices_dom)
  ultimately show "\<exists>devices. upd (main e a) = ParallelUpdater (train_iter a) devices
         \<and> map_of devices ''main'' = Some (hd (gpus a))
         \<and> (\<forall>g \<in> set (tl (gpus a)). map_of devices (gpu_key g) = Some g)
         \<and> dom (map_of devices) = insert ''main'' (gpu_key ` set (tl (gpus a)))"
    using u by blast
qed (simp_all add: main_def build_updater_def build_model_def select_device_def)

theorem updater_by_gpu_count_witness:
  "upd (main scenario_env scenario_args) = StandardUpdater (train_iter scenario_args) (- 1)
   \<and> \<not> on_gpu (model (main scenario_env scenario_args))
   \<and> upd (main scenario_env (scenario_args\<lparr>gpus := [3]\<rparr>))
       = StandardUpdater (train_iter (scenario_args\<lparr>gpus := [3]\<rparr>)) 3
   \<and> on_gpu (model (main scenario_env (scenario_args\<lparr>gpus := [3]\<rparr>)))
   \<and> (\<exists>devices. upd (main scenario_env (scenario_args\<lparr>gpus := [0, 1, 12]\<rparr>))
          = ParallelUpdater (train_iter (scenario_args\<lparr>gpus := [0, 1, 12]\<rparr>)) devices
        \<and> map_of devices ''main'' = Some 0
        \<and> map_of devices ''gpu1'' = Some 1 \<and> map_of devices ''gpu12'' = Some 12
        \<and> dom (map_of devices) = {''main'', ''gpu1'', ''gpu12''})"
  using updater_by_gpu_count [of scenario_args scenario_env]
    updater_by_gpu_count [of "scenario_args\<lparr>gpus := [3]\<rparr>" scenario_env]
    updater_by_gpu_count [of "scenario_args\<lparr>gpus := [0, 1, 12]\<rparr>" scenario_env]
  by (simp add: scenario_args_def defaults_def gpu_key_def str_int_def str_nat.simps digit_char_def)

subsection \<open>Missing paths on the command line\<close>

lemmas option_builders =
  str_option_def int_option_def float_option_def int_list_option_def float_list_option_def

lemma none_required: "filter (\<lambda>d. required d \<and> \<not> given cl d) parser = []"
  by (simp add: parser_def option_builders)

lemma parse_args_consume: "parse_args cl = consume cl defaults"
  by (simp add: parse_args_def none_required split: sum.splits)

lemma find_option_names:
  "find_option ''--names'' = Some (str_option [''--names''] (\<lambda>v a. a\<lparr>names := Some v\<rparr>))"
  by (simp add: find_option_def parser_def option_builders)

lemma find_option_train:
  "find_option ''--train'' = Some (str_option [''--train''] (\<lambda>v a. a\<lparr>train := Some v\<rparr>))"
  by (simp add: find_option_def parser_def option_builders)

lemma find_option_in: "find_option f = Some d \<Longrightarrow> d \<in> set parser \<and> f \<in> set (flags d)"
  by (auto simp: find_option_def find_Some_iff)

lemma store_names_frame:
  "d \<in> set parser \<Longrightarrow> ''--names'' \<notin> set (flags d) \<Longrightarrow>
   store d vs (a\<lparr>names := x\<rparr>) = map_option (\<lambda>b. b\<lparr>names := x\<rparr>) (store d vs a)"
  by (cases a) (auto simp: parser_def option_builders option.map_comp comp_def)

lemma store_train_frame:
  "d \<in> set parser \<Longrightarrow> ''--train'' \<notin> set (flags d) \<Longrightarrow>
   store d vs (a\<lparr>train := x\<rparr>) = map_option (\<lambda>b. b\<lparr>train := x\<rparr>) (store d vs a)"
  by (cases a) (auto simp: parser_def option_builders option.map_comp comp_def)

lemma flags_names: "d \<in> set parser \<Longrightarrow> ''--names'' \<in> set (flags d) \<Longrightarrow> f \<in> set (flags d) \<Longrightarrow> f = ''--names''"
  by (auto simp: parser_def option_builders)

lemma flags_train: "d \<in> set parser \<Longrightarrow> ''--train'' \<in> set (flags d) \<Longrightarrow> f \<in> set (flags d) \<Longrightarrow> f = ''--train''"
  by (auto simp: parser_def option_builders)

lemma consume_without_names:
  "consume cl a0 = Inr a \<Longrightarrow>
   consume (without ''--names'' cl) (a0\<lparr>names := x\<rparr>) = Inr (a\<lparr>names := x\<rparr>)"
proof (induction cl arbitrary: a0)
  case Nil
  then show ?case by (simp add: without_def)
next
  case (Cons occ rest)
  obtain f vs where occ: "occ = (f, vs)" by (cases occ)
  show ?case
  proof (cases "f = ''--names''")
    case True
    with Cons.prems occ obtain v where "consume rest (a0\<lparr>names := Some v\<rparr>) = Inr a"
      by (auto simp: find_option_names str_option_def split: if_splits)
    from Cons.IH [OF this] True occ show ?thesis by (simp add: without_def)
  next
    case False
    from Cons.prems occ obtain d a1 where d: "find_option f = Some d"
      and n: "\<not> (n_args d = One \<and> length vs \<noteq> 1)"
      and s: "store d vs a0 = Some a1" and r: "consume rest a1 = Inr a"
      by (auto split: option.splits if_splits)
    from find_option_in [OF d] False have "''--names'' \<notin> set (flags d)"
      using flags_names by blast
    with find_option_in [OF d] s have "store d vs (a0\<lparr>names := x\<rparr>) = Some (a1\<lparr>names := x\<rparr>)"
      by (simp add: store_names_frame)
    with d n Cons.IH [OF r] False occ show ?thesis by (simp add: without_def)
  qed
qed

lemma consume_without_train:
  "consume cl a0 = Inr a \<Longrightarrow>
   consume (without ''--train'' cl) (a0\<lparr>train := x\<rparr>) = Inr (a\<lparr>train := x\<rparr>)"
proof (induction cl arbitrary: a0)
  case Nil
  then show ?case by (simp add: without_def)
next
  case (Cons occ rest)
  obtain f vs where occ: "occ = (f, vs)" by (cases occ)
  show ?case
  proof (cases "f = ''--train''")
    case True
    with Cons.prems occ obtain v where "consume rest (a0\<lparr>train := Some v\<rparr>) = Inr a"
      by (auto simp: find_option_train str_option_def split: if_splits)
    from Cons.IH [OF this] True occ show ?thesis by (simp add: without_def)
  next
    case False
    from Cons.prems occ obtain d a1 where d: "find_option f = Some d"
      and n: "\<not> (n_args d = One \<and> length vs \<noteq> 1)"
      and s: "store d vs a0 = Some a1" and r: "consume rest a1 = Inr a"
      by (auto split: option.splits if_splits)
    from find_option_in [OF d] False have "''--train'' \<notin> set (flags d)"
      using flags_train by blast
    with find_option_in [OF d] s have "store d vs (a0\<lparr>train := x\<rparr>) = Some (a1\<lparr>train := x\<rparr>)"
      by (simp add: store_train_frame)
    with d n Cons.IH [OF r] False occ show ?thesis by (simp add: without_def)
  qed
qed

lemma consume_not_required: "consume cl a \<noteq> Inl (Required_missing fs)"
  by (induction cl a rule: consume.induct) (auto split: option.splits)

text \<open>
  C5, as stated, fails. The claim: a command line without \<^verbatim>\<open>--names\<close> or without
  \<^verbatim>\<open>--train\<close> is refused by \<^verbatim>\<open>parse_args\<close> with a usage error. The empty command line,
  and the command line that gives \<^verbatim>\<open>--train\<close> only, are both accepted, and the missing
  paths are \<^verbatim>\<open>None\<close> in the namespace.
\<close>

theorem missing_path_counterexample:
  "parse_args [] = Inr defaults \<and> names defaults = None \<and> train defaults = None
   \<and> parse_args [(''--train'', [''train.txt''])] = Inr (defaults\<lparr>train := Some ''train.txt''\<rparr>)
   \<and> names (defaults\<lparr>train := Some ''train.txt''\<rparr>) = None"
  by (simp add: parse_args_consume find_option_train str_option_def defaults_def)

text \<open>
  C5, amended. No option is declared required, so \<^verbatim>\<open>parse_args\<close> never reports a missing
  option; and a command line that is accepted is still accepted when every occurrence of
  \<^verbatim>\<open>--names\<close> (or of \<^verbatim>\<open>--train\<close>) is taken out of it, with the same namespace except
  that the path is \<^verbatim>\<open>None\<close>.
\<close>

theorem missing_path_not_an_error:
  "parse_args cl \<noteq> Inl (Required_missing fs)
   \<and> (parse_args cl = Inr a \<longrightarrow>
        parse_args (without ''--names'' cl) = Inr (a\<lparr>names := None\<rparr>)
        \<and> parse_args (without ''--train'' cl) = Inr (a\<lparr>train := None\<rparr>))"
proof (intro conjI impI)
  show "parse_args cl \<noteq> Inl (Required_missing fs)"
    by (simp add: parse_args_consume consume_not_required)
next
  assume "parse_args cl = Inr a"
  then have c: "consume cl defaults = Inr a" by (simp add: parse_args_consume)
  have "defaults\<lparr>names := None\<rparr> = defaults" by (simp add: defaults_def)
  with consume_without_names [OF c, of None]
  show "parse_args (without ''--names'' cl) = Inr (a\<lparr>names := None\<rparr>)"
    by (simp add: parse_args_consume)
next
  assume "parse_args cl = Inr a"
  then have c: "consume cl defaults = Inr a" by (simp add: parse_args_consume)
  have "defaults\<lparr>train := None\<rparr> = defaults" by (simp add: defaults_def)
  with consume_without_train [OF c, of None]
  show "parse_args (without ''--train'' cl) = Inr (a\<lparr>train := None\<rparr>)"
    by (simp add: parse_args_consume)
qed

theorem missing_path_not_an_error_witness:
  "parse_args (without ''--names'' [(''--names'', [''names.txt'']), (''--train'', [''train.txt''])])
     = Inr (defaults\<lparr>names := Some ''names.txt'', train := Some ''train.txt''\<rparr>\<lparr>names := None\<rparr>)
   \<and> parse_args (without ''--train'' [(''--names'', [''names.txt'']), (''--train'', [''train.txt''])])
     = Inr (defaults\<lparr>names := Some ''names.txt'', train := Some ''train.txt''\<rparr>\<lparr>train := None\<rparr>)"
  using missing_path_not_an_error
    [of "[(''--names'', [''names.txt'']), (''--train'', [''train.txt''])]" _
        "defaults\<lparr>names := Some ''names.txt'', train := Some ''train.txt''\<rparr>"]
  by (simp add: parse_args_consume find_option_names find_option_train str_option_def)

subsection \<open>The crop sizes\<close>

lemma crop_sizes_list: "crop_sizes = [320, 352, 384, 416, 448]"
  by (simp add: crop_sizes_def upt_rec)

lemma crop_sizes_nth: "k < 5 \<Longrightarrow> crop_sizes ! k \<in> {320, 352, 384, 416, 448}"
proof -
  assume "k < 5"
  then have "k < length crop_sizes" by (simp add: crop_sizes_list)
  then have "crop_sizes ! k \<in> set crop_sizes" by (rule nth_mem)
  then show ?thesis by (simp only: crop_sizes_list) simp
qed

lemma crop_updater_main:
  "List.map_filter (crop_updater_args \<circ> fst) (extensions (main e a))
     = [(crop_sizes, iteration a - 200)]"
  by (simp add: main_def extension_lists map_filter_simps map_filter_append)

text \<open>
  C3. \<^verbatim>\<open>main\<close> builds one \<^verbatim>\<open>CropSizeUpdater\<close>, with the candidate sizes
  \<open>[320, 352, 384, 416, 448]\<close>, which are \<open>(10 + i) \<cdot> 32\<close> for \<open>i\<close> from 0 to 4, and the
  cutoff \<^verbatim>\<open>args.iteration - 200\<close>. Before the cutoff the size selected at iteration \<open>t\<close>
  is one of the candidates and depends on \<open>t\<close> only, not on the size in force; from the
  cutoff on the size in force is kept.
\<close>

theorem crop_size_schedule:
  "crop_sizes = [320, 352, 384, 416, 448]
   \<and> List.map_filter (crop_updater_args \<circ> fst) (extensions (main e a))
       = [([320, 352, 384, 416, 448], iteration a - 200)]
   \<and> (t < iteration a - 200 \<and> stage t < 5 \<longrightarrow>
        crop_size_update stage crop_sizes (iteration a - 200) t c = Some (crop_sizes ! stage t)
        \<and> crop_sizes ! stage t \<in> {320, 352, 384, 416, 448})
   \<and> (t < iteration a - 200 \<longrightarrow>
        crop_size_update stage crop_sizes (iteration a - 200) t c
          = crop_size_update stage crop_sizes (iteration a - 200) t c')
   \<and> (iteration a - 200 \<le> t \<longrightarrow>
        crop_size_update stage crop_sizes (iteration a - 200) t c = Some c)"
proof (intro conjI impI)
  show "crop_sizes = [320, 352, 384, 416, 448]" by (rule crop_sizes_list)
  show "List.map_filter (crop_updater_args \<circ> fst) (extensions (main e a))
       = [([320, 352, 384, 416, 448], iteration a - 200)]"
    unfolding crop_updater_main by (simp only: crop_sizes_list)
next
  assume h: "t < iteration a - 200 \<and> stage t < 5"
  have "length crop_sizes = 5" by (simp add: crop_sizes_list)
  with h show "crop_size_update stage crop_sizes (iteration a - 200) t c = Some (crop_sizes ! stage t)"
    by (simp add: crop_size_update_def)
  from h show "crop_sizes ! stage t \<in> {320, 352, 384, 416, 448}" using crop_sizes_nth by blast
next
  assume "t < iteration a - 200"
  then show "crop_size_update stage crop_sizes (iteration a - 200) t c
          = crop_size_update stage crop_sizes (iteration a - 200) t c'"
    by (simp add: crop_size_update_def)
next
  assume "iteration a - 200 \<le> t"
  then show "crop_size_update stage crop_sizes (iteration a - 200) t c = Some c"
    by (simp add: crop_size_update_def)
qed

theorem crop_size_schedule_witness:
  "crop_size_update scenario_stage crop_sizes (iteration defaults - 200) 7 416 = Some 384
   \<and> crop_size_update scenario_stage crop_sizes (iteration defaults - 200) 7 320 = Some 384
   \<and> crop_size_update scenario_stage crop_sizes (iteration defaults - 200) 50000 416 = Some 416
   \<and> crop_size_update scenario_stage crop_sizes (iteration defaults - 200) 50100 416 = Some 416"
proof -
  have early: "(7::int) < iteration defaults - 200 \<and> scenario_stage 7 < 5"
    by (simp add: defaults_def scenario_stage_def)
  have at: "crop_sizes ! scenario_stage 7 = 384"
    by (simp add: crop_sizes_list scenario_stage_def)
  have late: "iteration defaults - 200 \<le> 50000" "iteration defaults - 200 \<le> 50100"
    by (simp_all add: defaults_def)
  from early late at
    crop_size_schedule [of scenario_env defaults 7 scenario_stage 416 320]
    crop_size_schedule [of scenario_env defaults 50000 scenario_stage 416 416]
    crop_size_schedule [of scenario_env defaults 50100 scenario_stage 416 416]
  show ?thesis by metis
qed

subsection \<open>The loop, update by update\<close>

lemma poll_ok: "0 < t \<Longrightarrow> period tr \<noteq> 0 \<Longrightarrow> poll m t tr = Inr (fires m t tr, advance m t tr)"
  by (cases tr) (auto simp: interval_fires_def split: option.splits)

lemma period_advance: "period (advance m t tr) = period tr"
  by (cases tr) auto

lemma entry_ok_advance: "entry_ok (advance_entry m t en) = entry_ok en"
  by (cases "(m, t, en)" rule: advance_entry.cases) (auto simp: period_advance)

lemma invoke_all_ok:
  "0 < t \<Longrightarrow> list_all entry_ok es \<Longrightarrow>
   invoke_all m t es = Inr (map (advance_entry m t) es, fired_at m t es)"
proof (induction es)
  case Nil
  show ?case by (simp add: fired_at_def)
next
  case (Cons en es)
  obtain x reg where en: "en = (x, reg)" by (cases en)
  from Cons have ih: "invoke_all m t es = Inr (map (advance_entry m t) es, fired_at m t es)"
    by simp
  show ?case
  proof (cases reg)
    case None
    with en ih show ?thesis by (simp add: fired_at_def)
  next
    case (Some tr)
    with Cons.prems en have "poll m t tr = Inr (fires m t tr, advance m t tr)"
      by (simp add: poll_ok)
    with Some en ih show ?thesis by (simp add: fired_at_def)
  qed
qed

lemma state_after_count [simp]: "iteration_count (state_after m es k) = int k"
  by (cases k) simp_all

lemma state_after_ok: "list_all entry_ok es \<Longrightarrow> list_all entry_ok (entries (state_after m es k))"
  by (induction k) (simp_all add: list_all_iff entry_ok_advance)

lemma update_state_after:
  assumes "list_all entry_ok es"
  shows "update m (state_after m es k) = Inr (state_after m es (Suc k))"
proof -
  let ?s = "state_after m es k"
  have t: "iteration_count ?s + 1 = int (Suc k)" by simp
  have "list_all entry_ok (entries ?s)" using assms by (rule state_after_ok)
  then have "invoke_all m (int (Suc k)) (entries ?s)
      = Inr (map (advance_entry m (int (Suc k))) (entries ?s), fired_at m (int (Suc k)) (entries ?s))"
    by (intro invoke_all_ok) simp_all
  then show ?thesis
    unfolding update_def Let_def t by (simp del: of_nat_Suc)
qed

lemma updates_state_after:
  "list_all entry_ok es \<Longrightarrow> updates m n (state_after m es k) = Inr (state_after m es (k + n))"
proof (induction n arbitrary: k)
  case 0
  show ?case by simp
next
  case (Suc n)
  from Suc.prems have "update m (state_after m es k) = Inr (state_after m es (Suc k))"
    by (rule update_state_after)
  moreover from Suc have "updates m n (state_after m es (Suc k)) = Inr (state_after m es (Suc k + n))"
    by blast
  ultimately show ?case by (simp del: state_after.simps)
qed

lemma run_loop_reaches:
  "list_all entry_ok es \<Longrightarrow> 0 < n \<Longrightarrow> k \<le> n \<Longrightarrow>
   run_loop m (IntervalTrigger (int n)) (state_after m es k) = Some (Inr (state_after m es n))"
proof (induction "n - k" arbitrary: k)
  case 0
  then have "k = n" by simp
  with 0 show ?case
    by (subst run_loop.simps) (simp add: interval_fires_def)
next
  case (Suc d)
  then have k: "k < n" by simp
  then have "interval_fires (int n) (int k) = Inr False"
    by (simp add: interval_fires_def)
  moreover from Suc k have "run_loop m (IntervalTrigger (int n)) (state_after m es (Suc k))
      = Some (Inr (state_after m es n))" by (simp del: state_after.simps)
  moreover from Suc.prems have "update m (state_after m es k) = Inr (state_after m es (Suc k))"
    by (intro update_state_after)
  ultimately show ?case
    by (subst run_loop.simps) (simp del: state_after.simps)
qed

lemma run_reaches:
  "list_all entry_ok (extensions tr) \<Longrightarrow> stop_trigger tr = IntervalTrigger n \<Longrightarrow> 0 < n \<Longrightarrow>
   run m tr = Some (Inr (state_after m (extensions tr) (nat n)))"
  using run_loop_reaches [of "extensions tr" "nat n" 0 m] by (simp add: run_def initial_def)

lemma fst_advance_entry: "fst (advance_entry m t en) = fst en"
  by (cases "(m, t, en)" rule: advance_entry.cases) auto

lemma only_advance: "only x (map (advance_entry m t) es) = map (advance_entry m t) (only x es)"
  by (simp add: only_def filter_map comp_def fst_advance_entry)

lemma fired_at_only: "filter (\<lambda>y. y = x) (fired_at m t es) = fired_at m t (only x es)"
proof -
  have "filter (\<lambda>en. fst en = x) (filter (entry_fires m t) es)
      = filter (entry_fires m t) (filter (\<lambda>en. fst en = x) es)"
    by (induction es) auto
  then show ?thesis by (simp add: fired_at_def only_def filter_map comp_def)
qed

lemma entries_only:
  "entries (state_after m (only x es) k) = only x (entries (state_after m es k))"
  by (induction k) (simp_all add: only_advance)

lemma fired_only:
  "filter (\<lambda>ev. snd ev = x) (fired (state_after m es k)) = fired (state_after m (only x es) k)"
proof (induction k)
  case 0
  show ?case by simp
next
  case (Suc k)
  have "filter (\<lambda>ev. snd ev = x) (map (Pair (int (Suc k))) (fired_at m (int (Suc k)) (entries (state_after m es k))))
      = map (Pair (int (Suc k))) (filter (\<lambda>y. y = x) (fired_at m (int (Suc k)) (entries (state_after m es k))))"
    by (simp add: filter_map comp_def)
  with Suc show ?case by (simp add: fired_at_only entries_only del: of_nat_Suc)
qed

lemma interval_entries:
  "entries (state_after m [(x, Some (IntervalTrigger p))] k) = [(x, Some (IntervalTrigger p))]"
  by (induction k) simp_all

lemma interval_quiet:
  "k < n \<Longrightarrow> fired (state_after m [(x, Some (IntervalTrigger (int n)))] k) = []"
proof (induction k)
  case 0
  show ?case by simp
next
  case (Suc k)
  then have "int (Suc k) mod int n \<noteq> 0" by (simp del: of_nat_Suc add: zmod_int [symmetric])
  with Suc show ?case by (simp add: interval_entries fired_at_def del: of_nat_Suc)
qed

lemma interval_once:
  "0 < n \<Longrightarrow> fired (state_after m [(x, Some (IntervalTrigger (int n)))] n) = [(int n, x)]"
proof -
  assume "0 < n"
  then obtain k where n: "n = Suc k" by (cases n) auto
  then have "fired (state_after m [(x, Some (IntervalTrigger (int n)))] k) = []"
    by (intro interval_quiet) simp
  then show ?thesis unfolding n by (simp add: interval_entries fired_at_def del: of_nat_Suc)
qed

lemma main_entries_ok:
  "iteration a \<noteq> 0 \<Longrightarrow> display_interval a \<noteq> 0 \<Longrightarrow> snapshot_interval a \<noteq> 0 \<Longrightarrow>
   list_all entry_ok (extensions (main e a))"
  by (simp add: main_def validation_extensions_def report_extensions_def snapshot_extensions_def
      schedule_extensions_def detection_extensions_def)

lemma only_final:
  "only (Snapshot_object ''yolov3_final.npz'') (extensions (main e a))
     = [(Snapshot_object ''yolov3_final.npz'', Some (IntervalTrigger (iteration a)))]"
  by (simp add: only_def main_def validation_extensions_def report_extensions_def snapshot_extensions_def
      schedule_extensions_def detection_extensions_def)

lemma only_snapshot:
  "only (Snapshot_object ''yolov3_snapshot.npz'') (extensions (main e a))
     = [(Snapshot_object ''yolov3_snapshot.npz'',
         Some (MinValueTrigger (snapshot_key a) (snapshot_interval a) None))]"
  by (simp add: only_def main_def validation_extensions_def report_extensions_def snapshot_extensions_def
      schedule_extensions_def detection_extensions_def)

text \<open>
  C6. The trainer's stop trigger is \<^verbatim>\<open>(args.iteration, 'iteration')\<close>. With a positive
  iteration count and positive intervals the run ends without error, it is exactly
  \<^verbatim>\<open>args.iteration\<close> updates of the initial state, the counter it ends with is
  \<^verbatim>\<open>args.iteration\<close>, and \<^verbatim>\<open>yolov3_final.npz\<close> is written once in the whole run, at the
  iteration \<^verbatim>\<open>args.iteration\<close>.
\<close>

theorem runs_iteration_updates:
  assumes "0 < iteration a" and "0 < display_interval a" and "0 < snapshot_interval a"
  shows "stop_trigger (main e a) = IntervalTrigger (iteration a)
    \<and> run m (main e a) = Some (updates m (nat (iteration a)) (initial (main e a)))
    \<and> (\<exists>s. run m (main e a) = Some (Inr s) \<and> iteration_count s = iteration a
          \<and> filter (\<lambda>ev. snd ev = Snapshot_object ''yolov3_final.npz'') (fired s)
              = [(iteration a, Snapshot_object ''yolov3_final.npz'')])"
proof -
  let ?es = "extensions (main e a)" and ?n = "nat (iteration a)"
  have stop: "stop_trigger (main e a) = IntervalTrigger (iteration a)" by (simp add: main_def)
  from assms have ok: "list_all entry_ok ?es" by (intro main_entries_ok) simp_all
  from ok stop assms(1) have r: "run m (main e a) = Some (Inr (state_after m ?es ?n))"
    by (rule run_reaches)
  have "updates m ?n (state_after m ?es 0) = Inr (state_after m ?es (0 + ?n))"
    using ok by (rule updates_state_after)
  then have u: "updates m ?n (initial (main e a)) = Inr (state_after m ?es ?n)"
    by (simp add: initial_def)
  have "filter (\<lambda>ev. snd ev = Snapshot_object ''yolov3_final.npz'') (fired (state_after m ?es ?n))
      = fired (state_after m [(Snapshot_object ''yolov3_final.npz'', Some (IntervalTrigger (int ?n)))] ?n)"
    using assms(1) by (simp add: fired_only only_final)
  also have "\<dots> = [(int ?n, Snapshot_object ''yolov3_final.npz'')]"
    using assms(1) by (intro interval_once) simp
  finally have "filter (\<lambda>ev. snd ev = Snapshot_object ''yolov3_final.npz'') (fired (state_after m ?es ?n))
      = [(iteration a, Snapshot_object ''yolov3_final.npz'')]"
    using assms(1) by simp
  with r u stop assms(1) show ?thesis by simp
qed

theorem runs_iteration_updates_witness:
  "run scenario_metrics (main scenario_env scenario_args)
     = Some (updates scenario_metrics 4 (initial (main scenario_env scenario_args)))
   \<and> (\<exists>s. run scenario_metrics (main scenario_env scenario_args) = Some (Inr s)
         \<and> iteration_count s = 4
         \<and> filter (\<lambda>ev. snd ev = Snapshot_object ''yolov3_final.npz'') (fired s)
             = [(4, Snapshot_object ''yolov3_final.npz'')])"
proof -
  have h: "0 < iteration scenario_args" "0 < display_interval scenario_args"
    "0 < snapshot_interval scenario_args"
    by (simp_all add: scenario_args_def defaults_def)
  have n: "iteration scenario_args = 4" by (simp add: scenario_args_def defaults_def)
  have n4: "nat (4::int) = 4" by simp
  from runs_iteration_updates [OF h, of scenario_env scenario_metrics]
  show ?thesis unfolding n n4 by (rule conjunct2)
qed

subsection \<open>The best snapshot\<close>

lemma improves_iff:
  "improves m key p t \<longleftrightarrow> (\<forall>j. 0 < j \<and> j < t \<and> j mod p = 0 \<longrightarrow> m key t < m key j)"
  by (auto simp: improves_def checks_before_def list_all_iff)

lemma best_so_far_None:
  "best_so_far m key p t None \<longleftrightarrow> (\<forall>j. 0 < j \<and> j \<le> t \<longrightarrow> j mod p \<noteq> 0)"
  by (simp add: best_so_far_def)

lemma best_so_far_Some:
  "best_so_far m key p t (Some v) \<longleftrightarrow>
     (\<exists>j. 0 < j \<and> j \<le> t \<and> j mod p = 0 \<and> v = m key j)
     \<and> (\<forall>j. 0 < j \<and> j \<le> t \<and> j mod p = 0 \<longrightarrow> v \<le> m key j)"
  by (simp add: best_so_far_def)

lemma best_so_far_NoneD:
  "best_so_far m key p t None \<Longrightarrow> 0 < j \<Longrightarrow> j \<le> t \<Longrightarrow> j mod p \<noteq> 0"
  by (simp add: best_so_far_def)

lemma best_so_far_SomeD:
  "best_so_far m key p t (Some v) \<Longrightarrow> 0 < j \<Longrightarrow> j \<le> t \<Longrightarrow> j mod p = 0 \<Longrightarrow> v \<le> m key j"
  by (simp add: best_so_far_def)

lemma best_so_far_SomeE:
  "best_so_far m key p t (Some v) \<Longrightarrow> \<exists>j. 0 < j \<and> j \<le> t \<and> j mod p = 0 \<and> v = m key j"
  by (simp add: best_so_far_def)

lemma best_so_far_NoneI:
  "(\<And>j. 0 < j \<Longrightarrow> j \<le> t \<Longrightarrow> j mod p \<noteq> 0) \<Longrightarrow> best_so_far m key p t None"
  by (simp add: best_so_far_def)

lemma best_so_far_SomeI:
  assumes "0 < j0" "j0 \<le> t" "j0 mod p = 0" "v = m key j0"
    and "\<And>j. 0 < j \<Longrightarrow> j \<le> t \<Longrightarrow> j mod p = 0 \<Longrightarrow> v \<le> m key j"
  shows "best_so_far m key p t (Some v)"
proof -
  from assms(1-4) have "\<exists>j. 0 < j \<and> j \<le> t \<and> j mod p = 0 \<and> v = m key j"
    by (intro exI [of _ j0] conjI)
  moreover from assms(5) have "\<forall>j. 0 < j \<and> j \<le> t \<and> j mod p = 0 \<longrightarrow> v \<le> m key j"
    by (intro allI impI) (elim conjE)
  ultimately show ?thesis by (simp only: best_so_far_Some simp_thms)
qed

lemma best_so_far_fires:
  assumes "best_so_far m key p t b"
  shows "fires m (t + 1) (MinValueTrigger key p b) \<longleftrightarrow> (t + 1) mod p = 0 \<and> improves m key p (t + 1)"
proof (cases b)
  case None
  with assms have "\<forall>j. 0 < j \<and> j \<le> t \<longrightarrow> j mod p \<noteq> 0" by (simp add: best_so_far_def)
  then have "improves m key p (t + 1)" by (auto simp: improves_iff)
  with None show ?thesis by simp
next
  case (Some v)
  with assms obtain j0 where j0: "0 < j0" "j0 \<le> t" "j0 mod p = 0" "v = m key j0"
    and low: "\<forall>j. 0 < j \<and> j \<le> t \<and> j mod p = 0 \<longrightarrow> v \<le> m key j"
    by (auto simp: best_so_far_def)
  have "m key (t + 1) < v \<longleftrightarrow> improves m key p (t + 1)"
  proof
    assume lt: "m key (t + 1) < v"
    show "improves m key p (t + 1)"
      unfolding improves_iff
    proof (intro allI impI)
      fix j assume "0 < j \<and> j < t + 1 \<and> j mod p = 0"
      with low have "v \<le> m key j" by simp
      with lt show "m key (t + 1) < m key j" by simp
    qed
  next
    assume "improves m key p (t + 1)"
    with j0 show "m key (t + 1) < v" by (auto simp: improves_iff)
  qed
  with Some show ?thesis by simp
qed

lemma best_so_far_step:
  assumes best: "best_so_far m key p t b" and "0 \<le> t"
  shows "best_so_far m key p (t + 1)
           (if fires m (t + 1) (MinValueTrigger key p b) then Some (m key (t + 1)) else b)"
proof (cases "fires m (t + 1) (MinValueTrigger key p b)")
  case f: True
  from assms(2) have t: "0 < t + 1" by simp
  from f have c: "(t + 1) mod p = 0" by simp
  have "best_so_far m key p (t + 1) (Some (m key (t + 1)))"
  proof (rule best_so_far_SomeI [of "t + 1"])
    fix j :: int
    assume j: "0 < j" "j \<le> t + 1" "j mod p = 0"
    show "m key (t + 1) \<le> m key j"
    proof (cases "j = t + 1")
      case True
      then show ?thesis by simp
    next
      case False
      with j(2) have jt: "j \<le> t" by simp
      show ?thesis
      proof (cases b)
        case None
        with best j(1) jt have "j mod p \<noteq> 0" by (intro best_so_far_NoneD [of m key p t j]) simp_all
        with j(3) show ?thesis by simp
      next
        case (Some v)
        with best j(1) jt j(3) have "v \<le> m key j"
          by (intro best_so_far_SomeD [of m key p t v j]) simp_all
        moreover from f Some have "m key (t + 1) < v" by simp
        ultimately show ?thesis by simp
      qed
    qed
  qed (use t c in simp_all)
  with f show ?thesis by (simp only: if_True)
next
  case nf: False
  have "best_so_far m key p (t + 1) b"
  proof (cases b)
    case None
    with nf have c: "(t + 1) mod p \<noteq> 0" by simp
    have "best_so_far m key p (t + 1) None"
    proof (rule best_so_far_NoneI)
      fix j :: int
      assume j: "0 < j" "j \<le> t + 1"
      show "j mod p \<noteq> 0"
      proof (cases "j = t + 1")
        case True
        with c show ?thesis by simp
      next
        case False
        with j(2) have "j \<le> t" by simp
        with best None j(1) show ?thesis by (intro best_so_far_NoneD [of m key p t j]) simp_all
      qed
    qed
    with None show ?thesis by simp
  next
    case (Some v)
    with best have "\<exists>j. 0 < j \<and> j \<le> t \<and> j mod p = 0 \<and> v = m key j"
      by (intro best_so_far_SomeE) simp
    then obtain j0 where j0: "0 < j0" "j0 \<le> t" "j0 mod p = 0" "v = m key j0"
      by (elim exE conjE)
    have "best_so_far m key p (t + 1) (Some v)"
    proof (rule best_so_far_SomeI [of j0])
      fix j :: int
      assume j: "0 < j" "j \<le> t + 1" "j mod p = 0"
      show "v \<le> m key j"
      proof (cases "j = t + 1")
        case True
        with nf Some j(3) show ?thesis by simp
      next
        case False
        with j(2) have "j \<le> t" by simp
        with best Some j(1) j(3) show ?thesis
          by (intro best_so_far_SomeD [of m key p t v j]) simp_all
      qed
    qed (use j0 in simp_all)
    with Some show ?thesis by simp
  qed
  with nf show ?thesis by (simp only: if_False)
qed

lemma min_value_run:
  "\<exists>b. entries (state_after m [(x, Some (MinValueTrigger key p None))] k)
          = [(x, Some (MinValueTrigger key p b))]
     \<and> best_so_far m key p (int k) b
     \<and> (\<forall>t. (t, x) \<in> set (fired (state_after m [(x, Some (MinValueTrigger key p None))] k))
           \<longleftrightarrow> 0 < t \<and> t \<le> int k \<and> t mod p = 0 \<and> improves m key p t)"
proof (induction k)
  case 0
  show ?case by (simp add: best_so_far_def)
next
  case (Suc k)
  let ?s = "state_after m [(x, Some (MinValueTrigger key p None))] k"
  from Suc obtain b where en: "entries ?s = [(x, Some (MinValueTrigger key p b))]"
    and best: "best_so_far m key p (int k) b"
    and old: "\<forall>t. (t, x) \<in> set (fired ?s) \<longleftrightarrow> 0 < t \<and> t \<le> int k \<and> t mod p = 0 \<and> improves m key p t"
    by (elim exE conjE)
  let ?t = "int k + 1"
  let ?f = "fires m ?t (MinValueTrigger key p b)"
  let ?b' = "if ?f then Some (m key ?t) else b"
  have t: "int (Suc k) = ?t" by simp
  have e': "entries (state_after m [(x, Some (MinValueTrigger key p None))] (Suc k))
      = [(x, Some (MinValueTrigger key p ?b'))]"
    unfolding state_after.simps t en by simp
  have b': "best_so_far m key p (int (Suc k)) ?b'"
    unfolding t using best by (rule best_so_far_step) simp
  have fi: "fired (state_after m [(x, Some (MinValueTrigger key p None))] (Suc k))
      = fired ?s @ (if ?f then [(?t, x)] else [])"
    unfolding state_after.simps t en by (simp add: fired_at_def)
  have ff: "?f \<longleftrightarrow> ?t mod p = 0 \<and> improves m key p ?t"
    using best by (rule best_so_far_fires)
  have c: "\<forall>u. (u, x) \<in> set (fired (state_after m [(x, Some (MinValueTrigger key p None))] (Suc k)))
           \<longleftrightarrow> 0 < u \<and> u \<le> int (Suc k) \<and> u mod p = 0 \<and> improves m key p u"
  proof
    fix u
    have "(u, x) \<in> set (fired (state_after m [(x, Some (MinValueTrigger key p None))] (Suc k)))
        \<longleftrightarrow> (u, x) \<in> set (fired ?s) \<or> (u = ?t \<and> ?f)"
      unfolding fi by auto
    also have "\<dots> \<longleftrightarrow> (0 < u \<and> u \<le> int k \<and> u mod p = 0 \<and> improves m key p u)
        \<or> (u = ?t \<and> ?t mod p = 0 \<and> improves m key p ?t)"
      using old ff by simp
    also have "\<dots> \<longleftrightarrow> 0 < u \<and> u \<le> int (Suc k) \<and> u mod p = 0 \<and> improves m key p u"
    proof (cases "u = ?t")
      case True
      then show ?thesis unfolding t by simp
    next
      case False
      then have "u \<le> ?t \<longleftrightarrow> u \<le> int k" by auto
      with False show ?thesis unfolding t by simp
    qed
    finally show "(u, x) \<in> set (fired (state_after m [(x, Some (MinValueTrigger key p None))] (Suc k)))
        \<longleftrightarrow> 0 < u \<and> u \<le> int (Suc k) \<and> u mod p = 0 \<and> improves m key p u" .
  qed
  show ?case
  proof (intro exI conjI)
    show "entries (state_after m [(x, Some (MinValueTrigger key p None))] (Suc k))
      = [(x, Some (MinValueTrigger key p ?b'))]" by (rule e')
    show "best_so_far m key p (int (Suc k)) ?b'" by (rule b')
    show "\<forall>u. (u, x) \<in> set (fired (state_after m [(x, Some (MinValueTrigger key p None))] (Suc k)))
           \<longleftrightarrow> 0 < u \<and> u \<le> int (Suc k) \<and> u mod p = 0 \<and> improves m key p u" by (rule c)
  qed
qed

text \<open>
  C2. \<^verbatim>\<open>yolov3_snapshot.npz\<close> is registered once, on a minimum-value trigger over the
  snapshot interval whose key is \<^verbatim>\<open>'validation/main/loss'\<close> when \<^verbatim>\<open>--valid\<close> is given
  and \<^verbatim>\<open>'main/loss'\<close> otherwise. In a run it is written at iteration \<open>t\<close> exactly when
  \<open>t\<close> is a multiple of the snapshot interval, not beyond the last iteration, at which
  the key's value is strictly below its value at every earlier check.
\<close>

theorem best_snapshot_policy:
  assumes "0 < iteration a" and "0 < display_interval a" and "0 < snapshot_interval a"
  shows "snapshot_key a = (if length (valid a) > 0 then ''validation/main/loss'' else ''main/loss'')
    \<and> only (Snapshot_object ''yolov3_snapshot.npz'') (extensions (main e a))
        = [(Snapshot_object ''yolov3_snapshot.npz'',
            Some (MinValueTrigger (snapshot_key a) (snapshot_interval a) None))]
    \<and> (\<exists>s. run m (main e a) = Some (Inr s)
          \<and> (\<forall>t. (t, Snapshot_object ''yolov3_snapshot.npz'') \<in> set (fired s)
                \<longleftrightarrow> 0 < t \<and> t \<le> iteration a \<and> t mod snapshot_interval a = 0
                    \<and> improves m (snapshot_key a) (snapshot_interval a) t))"
proof -
  let ?es = "extensions (main e a)" and ?n = "nat (iteration a)"
  let ?x = "Snapshot_object ''yolov3_snapshot.npz''"
  have stop: "stop_trigger (main e a) = IntervalTrigger (iteration a)" by (simp add: main_def)
  from assms have ok: "list_all entry_ok ?es" by (intro main_entries_ok) simp_all
  from ok stop assms(1) have r: "run m (main e a) = Some (Inr (state_after m ?es ?n))"
    by (rule run_reaches)
  have "\<And>t. (t, ?x) \<in> set (fired (state_after m ?es ?n))
      \<longleftrightarrow> (t, ?x) \<in> set (filter (\<lambda>ev. snd ev = ?x) (fired (state_after m ?es ?n)))"
    by simp
  then have "\<And>t. (t, ?x) \<in> set (fired (state_after m ?es ?n))
      \<longleftrightarrow> (t, ?x) \<in> set (fired (state_after m
             [(?x, Some (MinValueTrigger (snapshot_key a) (snapshot_interval a) None))] ?n))"
    unfolding fired_only only_snapshot .
  moreover from min_value_run [of m ?x "snapshot_key a" "snapshot_interval a" ?n]
  obtain b where "\<forall>t. (t, ?x) \<in> set (fired (state_after m
             [(?x, Some (MinValueTrigger (snapshot_key a) (snapshot_interval a) None))] ?n))
      \<longleftrightarrow> 0 < t \<and> t \<le> int ?n \<and> t mod snapshot_interval a = 0
          \<and> improves m (snapshot_key a) (snapshot_interval a) t"
    by (elim exE conjE)
  then have "\<And>t. (t, ?x) \<in> set (fired (state_after m
             [(?x, Some (MinValueTrigger (snapshot_key a) (snapshot_interval a) None))] ?n))
      \<longleftrightarrow> 0 < t \<and> t \<le> int ?n \<and> t mod snapshot_interval a = 0
          \<and> improves m (snapshot_key a) (snapshot_interval a) t"
    by (rule spec)
  ultimately have "\<forall>t. (t, ?x) \<in> set (fired (state_after m ?es ?n))
      \<longleftrightarrow> 0 < t \<and> t \<le> iteration a \<and> t mod snapshot_interval a = 0
          \<and> improves m (snapshot_key a) (snapshot_interval a) t"
    using assms(1) by simp
  with r show ?thesis by (simp add: snapshot_key_def only_snapshot)
qed

theorem best_snapshot_policy_witness:
  "snapshot_key scenario_args = ''main/loss''
   \<and> snapshot_key (scenario_args\<lparr>valid := ''valid.txt''\<rparr>) = ''validation/main/loss''
   \<and> (\<exists>s. run scenario_metrics (main scenario_env scenario_args) = Some (Inr s)
         \<and> (2, Snapshot_object ''yolov3_snapshot.npz'') \<in> set (fired s)
         \<and> (4, Snapshot_object ''yolov3_snapshot.npz'') \<notin> set (fired s))"
proof -
  have h: "0 < iteration scenario_args" "0 < display_interval scenario_args"
    "0 < snapshot_interval scenario_args"
    by (simp_all add: scenario_args_def defaults_def)
  have h': "0 < iteration (scenario_args\<lparr>valid := ''valid.txt''\<rparr>)"
    "0 < display_interval (scenario_args\<lparr>valid := ''valid.txt''\<rparr>)"
    "0 < snapshot_interval (scenario_args\<lparr>valid := ''valid.txt''\<rparr>)"
    by (simp_all add: scenario_args_def defaults_def)
  have v: "length (valid scenario_args) = 0"
    "length (valid (scenario_args\<lparr>valid := ''valid.txt''\<rparr>)) > 0"
    by (simp_all add: scenario_args_def defaults_def)
  have n: "iteration scenario_args = 4" "snapshot_interval scenario_args = 2"
    by (simp_all add: scenario_args_def defaults_def)
  have odd: "j mod 2 \<noteq> 0" if "0 < j" "j < 2" for j :: int
    using that by presburger
  have i2: "improves scenario_metrics key 2 2" for key
    unfolding improves_iff
  proof (intro allI impI)
    fix j :: int
    assume "0 < j \<and> j < 2 \<and> j mod 2 = 0"
    with odd [of j] show "scenario_metrics key 2 < scenario_metrics key j" by simp
  qed
  have "\<not> (scenario_metrics key 4 < scenario_metrics key 2)" for key
    by (simp add: scenario_metrics_def)
  then have i4: "\<not> improves scenario_metrics key 2 4" for key
    unfolding improves_iff by (simp only: not_all) (rule exI [of _ 2], simp)
  from best_snapshot_policy [OF h, of scenario_env scenario_metrics]
  obtain s where r: "run scenario_metrics (main scenario_env scenario_args) = Some (Inr s)"
    and f: "\<forall>t. (t, Snapshot_object ''yolov3_snapshot.npz'') \<in> set (fired s)
                \<longleftrightarrow> 0 < t \<and> t \<le> 4 \<and> t mod 2 = 0
                    \<and> improves scenario_metrics (snapshot_key scenario_args) 2 t"
    and k: "snapshot_key scenario_args = ''main/loss''"
    unfolding n using v by auto
  from f i2 have a: "(2, Snapshot_object ''yolov3_snapshot.npz'') \<in> set (fired s)" by simp
  from f i4 have b: "(4, Snapshot_object ''yolov3_snapshot.npz'') \<notin> set (fired s)" by simp
  from best_snapshot_policy [OF h', of scenario_env scenario_metrics] v
  have k': "snapshot_key (scenario_args\<lparr>valid := ''valid.txt''\<rparr>) = ''validation/main/loss''"
    by simp
  from r a b k k' show ?thesis by (intro conjI exI [of _ s])
qed

subsection \<open>The reporting intervals\<close>











end
